theory Spec2Isabelle
  imports Main "HOL-Library.Sublist"
begin

section \<open>Data model\<close>

text \<open>
  The catalogs are lists of JSON objects read once from \<^verbatim>\<open>Legacy_tables.json\<close> and
  \<^verbatim>\<open>Target_tables.json\<close>. The code reads four keys of such an object:
  \<^verbatim>\<open>table["table_name"]\<close> and \<^verbatim>\<open>table["columns"]\<close> by subscript (both are required
  of a table schema), \<^verbatim>\<open>target_schema.get("foreign_keys", [])\<close> and
  \<^verbatim>\<open>table.get("file_name")\<close> through \<^verbatim>\<open>get\<close>, so these two may be absent: they are
  options, \<open>None\<close> standing for a missing key. A column is the list of its attributes,
  the column name first; the code reads \<^verbatim>\<open>column[0]\<close> only.
\<close>

type_synonym column = "string list"

record table_schema =
  table_name :: string
  columns :: "column list"
  foreign_keys :: "string list option"
  file_name :: "string option"

text \<open>
  The dictionary \<^verbatim>\<open>{table_name: [column names]}\<close> that is embedded, stored and read
  back: keys in insertion order, each with its list of column names.
\<close>

type_synonym py_dict = "(string \<times> string list) list"

datatype error =
    IndexError
  | StopIteration
  | ExternalError string

section \<open>Selecting the target schema (main.py, get\_target\_schema\_by\_filename)\<close>

text \<open>
  \<^verbatim>\<open>for table in target_tables: if table.get("file_name") == filename: return table\<close>,
  and \<^verbatim>\<open>return None\<close> after the loop. \<^verbatim>\<open>get\<close> gives \<^verbatim>\<open>None\<close> for a missing key, which
  is different from every file name.
\<close>

fun get_target_schema_by_filename :: "table_schema list \<Rightarrow> string \<Rightarrow> table_schema option" where
  "get_target_schema_by_filename [] filename = None"
| "get_target_schema_by_filename (table # target_tables) filename =
     (if file_name table = Some filename then Some table
      else get_target_schema_by_filename target_tables filename)"

section \<open>List comprehensions that may raise\<close>

text \<open>
  \<^verbatim>\<open>[f(x) for x in xs]\<close> evaluates \<^verbatim>\<open>f\<close> from left to right and the first exception
  leaves the comprehension: no list is built.
\<close>

fun map_err :: "('a \<Rightarrow> error + 'b) \<Rightarrow> 'a list \<Rightarrow> error + 'b list" where
  "map_err f [] = Inr []"
| "map_err f (x # xs) =
     (case f x of
        Inl e \<Rightarrow> Inl e
      | Inr y \<Rightarrow> (case map_err f xs of Inl e \<Rightarrow> Inl e | Inr ys \<Rightarrow> Inr (y # ys)))"

section \<open>The schema document (main.py, lines 50-52 and 81-85)\<close>

text \<open>\<^verbatim>\<open>column[0]\<close>: the first attribute of a column, IndexError on an empty column.\<close>

definition column0 :: "column \<Rightarrow> error + string" where
  "column0 column = (case column of [] \<Rightarrow> Inl IndexError | name # _ \<Rightarrow> Inr name)"

text \<open>
  \<^verbatim>\<open>{target_schema["table_name"]: [column[0] for column in target_schema["columns"]]}\<close>:
  a dictionary with one key.
\<close>

definition target_schema_query :: "table_schema \<Rightarrow> error + py_dict" where
  "target_schema_query target_schema =
     (case map_err column0 (columns target_schema) of
        Inl e \<Rightarrow> Inl e
      | Inr names \<Rightarrow> Inr [(table_name target_schema, names)])"

text \<open>
  \<^verbatim>\<open>data = [{table["table_name"]: [column[0] for column in table["columns"]]}
    for table in legacy_tables]\<close> in \<^verbatim>\<open>initialize_vector_storage\<close>: the same
  dictionary, for every legacy table.
\<close>

definition format_data :: "table_schema list \<Rightarrow> error + py_dict list" where
  "format_data legacy = map_err target_schema_query legacy"

text \<open>
  The text of a document is Python's \<^verbatim>\<open>str\<close> of the dictionary
  (\<^verbatim>\<open>str(target_schema_query)\<close> for the query, \<^verbatim>\<open>list(map(str, tables))\<close> in
  \<^verbatim>\<open>add_to_collection\<close>). \<^verbatim>\<open>str\<close> is a builtin of the language and not code of the
  program: it is a parameter \<open>py_str\<close> of the model.
\<close>

definition schema_document :: "(py_dict \<Rightarrow> string) \<Rightarrow> table_schema \<Rightarrow> error + string" where
  "schema_document py_str table =
     (case target_schema_query table of Inl e \<Rightarrow> Inl e | Inr d \<Rightarrow> Inr (py_str d))"

section \<open>The embedding function (vector\_storage.py, VertexAIEmbeddingFunction.\_\_call\_\_)\<close>

definition batch_size :: nat where
  "batch_size = 100"

text \<open>
  The provider \<^verbatim>\<open>self.embedding_model.get_embeddings\<close> is a remote model: a parameter
  that maps the texts of one request to their vectors or fails. The loop is
  \<^verbatim>\<open>for i in range(0, len(docs), batch_size)\<close> with \<^verbatim>\<open>batch_docs = docs[i : i + batch_size]\<close>
  and \<^verbatim>\<open>all_embeddings.extend(...)\<close>; \<^verbatim>\<open>str(document)\<close> is the identity on a text.
  The \<^verbatim>\<open>except\<close> clause prints and raises the same exception again.
\<close>

function embed_loop ::
  "(string list \<Rightarrow> error + 'v list) \<Rightarrow> string list \<Rightarrow> nat \<Rightarrow> 'v list \<Rightarrow> error + 'v list" where
  "embed_loop get_embeddings docs i all_embeddings =
     (if i < length docs then
        (case get_embeddings (take batch_size (drop i docs)) of
           Inl e \<Rightarrow> Inl e
         | Inr batch_embeddings \<Rightarrow>
             embed_loop get_embeddings docs (i + batch_size) (all_embeddings @ batch_embeddings))
      else Inr all_embeddings)"
  by pat_completeness auto
termination
  by (relation "measure (\<lambda>(g, docs, i, acc). length docs - i)") (auto simp: batch_size_def)

declare embed_loop.simps [simp del]

definition embed_call :: "(string list \<Rightarrow> error + 'v list) \<Rightarrow> string list \<Rightarrow> error + 'v list" where
  "embed_call get_embeddings docs = embed_loop get_embeddings docs 0 []"

section \<open>The resolver (main.py, get\_legacy\_and\_dependent\_tables)\<close>

text \<open>
  The vector storage is LangChain's Chroma store, a library: the model takes what the
  function asks of it as parameters. \<open>invoke\<close> is
  \<^verbatim>\<open>as_retriever(search_type=..., search_kwargs={"k": ..., "fetch_k": ...}).invoke(text)\<close>
  and gives the \<^verbatim>\<open>page_content\<close> of the documents found, in rank order, or fails;
  \<open>py_eval\<close> is the builtin \<^verbatim>\<open>eval\<close> on one page content, giving a dictionary or
  failing; \<open>py_str\<close> is the builtin \<^verbatim>\<open>str\<close> on the query dictionary.
\<close>

record vector_storage =
  py_str :: "py_dict \<Rightarrow> string"
  invoke :: "string \<Rightarrow> nat \<Rightarrow> nat \<Rightarrow> string \<Rightarrow> error + string list"
  py_eval :: "string \<Rightarrow> error + py_dict"

text \<open>
  \<^verbatim>\<open>foreign_keys = target_schema.get("foreign_keys", [])\<close> and
  \<^verbatim>\<open>[table for table in target_tables if table["table_name"] in foreign_keys]\<close>.
\<close>

definition dependent_tables_of :: "table_schema \<Rightarrow> table_schema list \<Rightarrow> table_schema list" where
  "dependent_tables_of target_schema target_tables =
     (let fks = (case foreign_keys target_schema of None \<Rightarrow> [] | Some ks \<Rightarrow> ks)
      in filter (\<lambda>table. table_name table \<in> set fks) target_tables)"

text \<open>\<^verbatim>\<open>list(item.keys())[0]\<close>: the first key, IndexError on an empty dictionary.\<close>

definition first_key :: "py_dict \<Rightarrow> error + string" where
  "first_key item = (case map fst item of [] \<Rightarrow> Inl IndexError | k # _ \<Rightarrow> Inr k)"

text \<open>
  Lines 50 to 64: the query dictionary, the retriever with \<^verbatim>\<open>search_type="mmr"\<close>,
  \<^verbatim>\<open>k = 10\<close> and \<^verbatim>\<open>fetch_k = 50\<close>, the evaluation of every page content and the first
  key of every dictionary.
\<close>

definition retrieve_table_names :: "vector_storage \<Rightarrow> table_schema \<Rightarrow> error + string list" where
  "retrieve_table_names vs target_schema =
     (case target_schema_query target_schema of
        Inl e \<Rightarrow> Inl e
      | Inr query \<Rightarrow>
          (case invoke vs ''mmr'' 10 50 (py_str vs query) of
             Inl e \<Rightarrow> Inl e
           | Inr retrieved_data \<Rightarrow>
               (case map_err (py_eval vs) retrieved_data of
                  Inl e \<Rightarrow> Inl e
                | Inr retrieved_tables \<Rightarrow> map_err first_key retrieved_tables)))"

text \<open>
  \<^verbatim>\<open>any(table["table_name"] == table_name for table in legacy_tables)\<close> and
  \<^verbatim>\<open>next(table for table in legacy_tables if table["table_name"] == table_name)\<close>, which
  raises StopIteration when no table has the name.
\<close>

fun any_table :: "table_schema list \<Rightarrow> string \<Rightarrow> bool" where
  "any_table [] name = False"
| "any_table (table # legacy) name = (if table_name table = name then True else any_table legacy name)"

fun next_table :: "table_schema list \<Rightarrow> string \<Rightarrow> error + table_schema" where
  "next_table [] name = Inl StopIteration"
| "next_table (table # legacy) name =
     (if table_name table = name then Inr table else next_table legacy name)"

text \<open>
  Lines 65 to 69: \<^verbatim>\<open>[next(...) for table_name in table_names if any(...)]\<close>.
\<close>

fun match_tables :: "table_schema list \<Rightarrow> string list \<Rightarrow> error + table_schema list" where
  "match_tables legacy [] = Inr []"
| "match_tables legacy (name # table_names) =
     (if any_table legacy name then
        (case next_table legacy name of
           Inl e \<Rightarrow> Inl e
         | Inr table \<Rightarrow>
             (case match_tables legacy table_names of
                Inl e \<Rightarrow> Inl e
              | Inr tables \<Rightarrow> Inr (table # tables)))
      else match_tables legacy table_names)"

text \<open>
  The function returns the pair \<^verbatim>\<open>(retrieved_tables, dependent_tables)\<close>. The dependent
  tables are computed first and cannot fail; an exception of the retrieval leaves the
  function without a result.
\<close>

definition get_legacy_and_dependent_tables ::
  "table_schema \<Rightarrow> table_schema list \<Rightarrow> table_schema list \<Rightarrow> vector_storage \<Rightarrow>
     error + (table_schema list \<times> table_schema list)" where
  "get_legacy_and_dependent_tables target_schema target_tables legacy vs =
     (let dependent = dependent_tables_of target_schema target_tables
      in case retrieve_table_names vs target_schema of
           Inl e \<Rightarrow> Inl e
         | Inr table_names \<Rightarrow>
             (case match_tables legacy table_names of
                Inl e \<Rightarrow> Inl e
              | Inr retrieved_tables \<Rightarrow> Inr (retrieved_tables, dependent)))"

section \<open>The generation request (main.py, lines 145-174)\<close>

text \<open>
  The keyword arguments of \<^verbatim>\<open>sql_writer.get_sql_query\<close>, from which the generator
  builds the system prompt (\<^verbatim>\<open>legacy_tables\<close>) and the user prompt
  (\<^verbatim>\<open>target_schema\<close>, \<^verbatim>\<open>dependent_tables\<close>).
\<close>

record generation_request =
  legacy_tables :: "table_schema list"
  target_schema :: table_schema
  dependent_tables :: "table_schema list"

text \<open>
  The body of the button handler: the target schema of the selected file, the
  resolver, then the call
  \<^verbatim>\<open>get_sql_query(legacy_tables=legacy_tables, target_schema=target_schema,
    dependent_tables=dependent_tables)\<close>, where \<^verbatim>\<open>legacy_tables\<close> is the catalog loaded by
  \<^verbatim>\<open>load_json_data\<close>. The result is the list of retrieved tables that the page
  displays and the request, or \<open>None\<close> when no target schema has the file name
  (\<^verbatim>\<open>st.error("Could not find target schema ...")\<close>).
\<close>

definition generate_transformation_logic ::
  "table_schema list \<Rightarrow> table_schema list \<Rightarrow> vector_storage \<Rightarrow> string \<Rightarrow>
     error + (table_schema list \<times> generation_request) option" where
  "generate_transformation_logic legacy target_tables vs filename =
     (case get_target_schema_by_filename target_tables filename of
        None \<Rightarrow> Inr None
      | Some schema \<Rightarrow>
          (case get_legacy_and_dependent_tables schema target_tables legacy vs of
             Inl e \<Rightarrow> Inl e
           | Inr (retrieved_tables, dependent) \<Rightarrow>
               Inr (Some (retrieved_tables,
                 \<lparr>legacy_tables = legacy, target_schema = schema,
                  dependent_tables = dependent\<rparr>))))"

section \<open>A vector storage with fixed content\<close>

text \<open>
  A test double for the store: whatever the query, the retriever returns the page
  contents of \<open>docs\<close> in this order, and \<^verbatim>\<open>eval\<close> of a page content gives the
  dictionary listed with it.
\<close>

definition stub_vector_storage :: "(string \<times> py_dict) list \<Rightarrow> vector_storage" where
  "stub_vector_storage docs =
     \<lparr>py_str = (\<lambda>d. []),
      invoke = (\<lambda>search_type k fetch_k text. Inr (map fst docs)),
      py_eval = (\<lambda>content. case map_of docs content of
                   None \<Rightarrow> Inl (ExternalError ''eval'')
                 | Some d \<Rightarrow> Inr d)\<rparr>"

section \<open>Properties\<close>

lemma get_target_schema_by_filename_None:
  "get_target_schema_by_filename tts f = None \<longleftrightarrow> (\<forall>t \<in> set tts. file_name t \<noteq> Some f)"
  by (induction tts) auto

lemma get_target_schema_by_filename_Some:
  "get_target_schema_by_filename tts f = Some t \<longleftrightarrow>
     (\<exists>i < length tts. tts ! i = t \<and> file_name t = Some f \<and>
        (\<forall>j < i. file_name (tts ! j) \<noteq> Some f))"
proof (induction tts)
  case Nil
  then show ?case by simp
next
  case (Cons a tts)
  show ?case
  proof (cases "file_name a = Some f")
    case True
    have "(\<exists>i < length (a # tts). (a # tts) ! i = t \<and> file_name t = Some f \<and>
        (\<forall>j < i. file_name ((a # tts) ! j) \<noteq> Some f)) \<longleftrightarrow> a = t"
    proof
      assume "\<exists>i < length (a # tts). (a # tts) ! i = t \<and> file_name t = Some f \<and>
        (\<forall>j < i. file_name ((a # tts) ! j) \<noteq> Some f)"
      then obtain i where i: "(a # tts) ! i = t" "\<forall>j < i. file_name ((a # tts) ! j) \<noteq> Some f"
        by blast
      have "i = 0"
      proof (rule ccontr)
        assume "i \<noteq> 0"
        then have "0 < i" by simp
        with i(2) have "file_name ((a # tts) ! 0) \<noteq> Some f" by blast
        with True show False by simp
      qed
      with i(1) show "a = t" by simp
    next
      assume "a = t"
      with True have "(a # tts) ! 0 = t \<and> file_name t = Some f \<and>
        (\<forall>j < 0. file_name ((a # tts) ! j) \<noteq> Some f)" by simp
      then show "\<exists>i < length (a # tts). (a # tts) ! i = t \<and> file_name t = Some f \<and>
        (\<forall>j < i. file_name ((a # tts) ! j) \<noteq> Some f)" by auto
    qed
    with True show ?thesis by simp
  next
    case False
    have "(\<exists>i < length (a # tts). (a # tts) ! i = t \<and> file_name t = Some f \<and>
        (\<forall>j < i. file_name ((a # tts) ! j) \<noteq> Some f)) \<longleftrightarrow>
      (\<exists>i < length tts. tts ! i = t \<and> file_name t = Some f \<and>
        (\<forall>j < i. file_name (tts ! j) \<noteq> Some f))" (is "?L \<longleftrightarrow> ?R")
    proof
      assume ?L
      then obtain i where i: "i < length (a # tts)" "(a # tts) ! i = t" "file_name t = Some f"
        "\<forall>j < i. file_name ((a # tts) ! j) \<noteq> Some f" by blast
      from i(2,3) False have "i \<noteq> 0" by (cases i) auto
      then obtain k where k: "i = Suc k" by (cases i) auto
      have "\<forall>j < k. file_name (tts ! j) \<noteq> Some f"
      proof (intro allI impI)
        fix j assume "j < k"
        then have "Suc j < i" using k by simp
        with i(4) have "file_name ((a # tts) ! Suc j) \<noteq> Some f" by blast
        then show "file_name (tts ! j) \<noteq> Some f" by simp
      qed
      with i k show ?R by auto
    next
      assume ?R
      then obtain k where k: "k < length tts" "tts ! k = t" "file_name t = Some f"
        "\<forall>j < k. file_name (tts ! j) \<noteq> Some f" by blast
      have "\<forall>j < Suc k. file_name ((a # tts) ! j) \<noteq> Some f"
      proof (intro allI impI)
        fix j assume "j < Suc k"
        then show "file_name ((a # tts) ! j) \<noteq> Some f"
          using False k(4) by (cases j) auto
      qed
      with k have "Suc k < length (a # tts) \<and> (a # tts) ! Suc k = t \<and> file_name t = Some f \<and>
        (\<forall>j < Suc k. file_name ((a # tts) ! j) \<noteq> Some f)" by simp
      then show ?L by blast
    qed
    with False Cons.IH show ?thesis by simp
  qed
qed

subsection \<open>The comprehension over the retrieved names\<close>

lemma any_table_iff: "any_table legacy name \<longleftrightarrow> name \<in> table_name ` set legacy"
  by (induction legacy) auto

lemma next_table_any:
  "any_table legacy name \<Longrightarrow> \<exists>t. next_table legacy name = Inr t"
  by (induction legacy) auto

lemma next_table_Inr:
  "next_table legacy name = Inr t \<Longrightarrow> t \<in> set legacy \<and> table_name t = name"
  by (induction legacy) (auto split: if_splits)

lemma next_table_idem:
  "next_table legacy name = Inr t \<Longrightarrow> next_table legacy (table_name t) = Inr t"
  using next_table_Inr by blast

lemma match_tables_total: "\<exists>ms. match_tables legacy names = Inr ms"
proof (induction names)
  case Nil
  then show ?case by simp
next
  case (Cons n names)
  then obtain ms where ms: "match_tables legacy names = Inr ms" by blast
  show ?case
  proof (cases "any_table legacy n")
    case True
    then obtain t where "next_table legacy n = Inr t" using next_table_any by blast
    with True ms show ?thesis by simp
  next
    case False
    with ms show ?thesis by simp
  qed
qed

lemma match_tables_names:
  "match_tables legacy names = Inr ms \<Longrightarrow>
     map table_name ms = filter (\<lambda>n. n \<in> table_name ` set legacy) names"
proof (induction names arbitrary: ms)
  case Nil
  then show ?case by simp
next
  case (Cons n names)
  show ?case
  proof (cases "any_table legacy n")
    case True
    then obtain t where t: "next_table legacy n = Inr t" using next_table_any by blast
    obtain ms' where ms': "match_tables legacy names = Inr ms'" using match_tables_total by blast
    from Cons.prems True t ms' have "ms = t # ms'" by simp
    moreover have "table_name t = n" using t next_table_Inr by blast
    moreover have "n \<in> table_name ` set legacy" using True any_table_iff by blast
    ultimately show ?thesis using Cons.IH [OF ms'] by simp
  next
    case False
    then have "n \<notin> table_name ` set legacy" using any_table_iff by blast
    with False Cons show ?thesis by simp
  qed
qed

lemma match_tables_first:
  "match_tables legacy names = Inr ms \<Longrightarrow> m \<in> set ms \<Longrightarrow>
     next_table legacy (table_name m) = Inr m"
proof (induction names arbitrary: ms)
  case Nil
  then show ?case by simp
next
  case (Cons n names)
  show ?case
  proof (cases "any_table legacy n")
    case True
    then obtain t where t: "next_table legacy n = Inr t" using next_table_any by blast
    obtain ms' where ms': "match_tables legacy names = Inr ms'" using match_tables_total by blast
    from Cons.prems(1) True t ms' have "ms = t # ms'" by simp
    with Cons.prems(2) have "m = t \<or> m \<in> set ms'" by auto
    then show ?thesis
    proof
      assume "m = t"
      with t show ?thesis using next_table_idem by blast
    next
      assume "m \<in> set ms'"
      with Cons.IH [OF ms'] show ?thesis by blast
    qed
  next
    case False
    with Cons show ?thesis by simp
  qed
qed

lemma match_tables_length:
  "match_tables legacy names = Inr ms \<Longrightarrow> length ms \<le> length names"
proof -
  assume "match_tables legacy names = Inr ms"
  then have "map table_name ms = filter (\<lambda>n. n \<in> table_name ` set legacy) names"
    by (rule match_tables_names)
  then have "length ms = length (filter (\<lambda>n. n \<in> table_name ` set legacy) names)"
    by (metis length_map)
  then show ?thesis by simp
qed

lemma get_legacy_and_dependent_tables_Inr:
  "retrieve_table_names vs ts = Inr names \<Longrightarrow> match_tables legacy names = Inr ms \<Longrightarrow>
     get_legacy_and_dependent_tables ts tts legacy vs = Inr (ms, dependent_tables_of ts tts)"
  by (simp add: get_legacy_and_dependent_tables_def)

lemma map_err_length: "map_err f xs = Inr ys \<Longrightarrow> length ys = length xs"
  by (induction xs arbitrary: ys) (auto split: sum.splits)

lemmas resolver_defs = retrieve_table_names_def target_schema_query_def column0_def
  stub_vector_storage_def first_key_def

lemma legacy_matches_length:
  assumes "invoke vs ''mmr'' 10 50 text = Inr retrieved_data"
    and "target_schema_query ts = Inr query" and "py_str vs query = text"
    and "get_legacy_and_dependent_tables ts tts legacy vs = Inr (ms, ds)"
  shows "length ms \<le> length retrieved_data"
proof -
  from assms obtain names where names: "retrieve_table_names vs ts = Inr names"
    and ms: "match_tables legacy names = Inr ms"
    by (auto simp: get_legacy_and_dependent_tables_def Let_def split: sum.splits)
  from names assms(1,2,3) obtain dicts where "map_err (py_eval vs) retrieved_data = Inr dicts"
    and "map_err first_key dicts = Inr names"
    by (auto simp: retrieve_table_names_def split: sum.splits)
  then have "length names = length retrieved_data"
    using map_err_length by metis
  with ms show ?thesis using match_tables_length by fastforce
qed

subsection \<open>The embedding loop\<close>

lemma embed_loop_ok:
  assumes g: "\<And>batch. batch \<noteq> [] \<Longrightarrow> length batch \<le> batch_size \<Longrightarrow> g batch = Inr (map emb batch)"
  shows "embed_loop g docs i acc = Inr (acc @ map emb (drop i docs))"
  using g
proof (induction g docs i acc rule: embed_loop.induct)
  case (1 g docs i acc)
  note g = "1.prems"
  show ?case
  proof (cases "i < length docs")
    case True
    let ?b = "take batch_size (drop i docs)"
    have "?b \<noteq> []" using True by (simp add: batch_size_def)
    moreover have "length ?b \<le> batch_size" by simp
    ultimately have b: "g ?b = Inr (map emb ?b)" by (rule g)
    have "embed_loop g docs (i + batch_size) (acc @ map emb ?b)
        = Inr ((acc @ map emb ?b) @ map emb (drop (i + batch_size) docs))"
      using "1.IH" [OF True b g] by blast
    moreover have "map emb ?b @ map emb (drop (i + batch_size) docs) = map emb (drop i docs)"
    proof -
      have "drop (i + batch_size) docs = drop batch_size (drop i docs)"
        by (simp add: add.commute)
      then have "?b @ drop (i + batch_size) docs = drop i docs"
        by (simp only: append_take_drop_id)
      then show ?thesis by (metis map_append)
    qed
    ultimately show ?thesis
      using True b by (subst embed_loop.simps) simp
  next
    case False
    then show ?thesis by (subst embed_loop.simps) simp
  qed
qed

lemma embed_loop_fails:
  "g (take batch_size (drop (i + m * batch_size) docs)) = Inl e \<Longrightarrow>
   i + m * batch_size < length docs \<Longrightarrow>
   \<exists>e' k. k \<le> m \<and> g (take batch_size (drop (i + k * batch_size) docs)) = Inl e' \<and>
      embed_loop g docs i acc = Inl e'"
proof (induction m arbitrary: i acc)
  case 0
  then have "embed_loop g docs i acc = Inl e"
    by (subst embed_loop.simps) simp
  with 0 show ?case by auto
next
  case (Suc m)
  have lt: "i < length docs" using Suc.prems(2) by simp
  show ?case
  proof (cases "g (take batch_size (drop i docs))")
    case (Inl e0)
    then have "embed_loop g docs i acc = Inl e0"
      using lt by (subst embed_loop.simps) simp
    with Inl have "0 \<le> Suc m \<and> g (take batch_size (drop (i + 0 * batch_size) docs)) = Inl e0 \<and>
      embed_loop g docs i acc = Inl e0" by simp
    then show ?thesis by blast
  next
    case (Inr bs)
    have step: "embed_loop g docs i acc = embed_loop g docs (i + batch_size) (acc @ bs)"
      using lt Inr by (subst embed_loop.simps) simp
    have eq: "i + batch_size + m * batch_size = i + Suc m * batch_size" by simp
    have "g (take batch_size (drop (i + batch_size + m * batch_size) docs)) = Inl e"
      using Suc.prems(1) by (simp only: eq)
    moreover have "i + batch_size + m * batch_size < length docs"
      using Suc.prems(2) by (simp only: eq)
    ultimately obtain e' k where k: "k \<le> m"
      "g (take batch_size (drop (i + batch_size + k * batch_size) docs)) = Inl e'"
      "embed_loop g docs (i + batch_size) (acc @ bs) = Inl e'"
      using Suc.IH [of "i + batch_size" "acc @ bs"] by blast
    have "i + batch_size + k * batch_size = i + Suc k * batch_size" by simp
    with k(2) have "g (take batch_size (drop (i + Suc k * batch_size) docs)) = Inl e'"
      by (simp only:)
    with k(1,3) step have "Suc k \<le> Suc m \<and>
      g (take batch_size (drop (i + Suc k * batch_size) docs)) = Inl e' \<and>
      embed_loop g docs i acc = Inl e'" by simp
    then show ?thesis by blast
  qed
qed

subsection \<open>The request of the generator\<close>

lemma request_carries_whole_catalog:
  "generate_transformation_logic legacy tts vs f = Inr (Some (retrieved, req)) \<Longrightarrow>
     legacy_tables req = legacy"
  by (auto simp: generate_transformation_logic_def split: option.splits sum.splits)

section \<open>The claims\<close>

text \<open>
  C1. The request handed to the generator. The claim is that its
  \<open>legacy_tables\<close> are the tables the resolver retrieved. The call in \<^verbatim>\<open>main.py\<close>
  passes the whole legacy catalog instead: with two legacy tables of which the index
  returns one, the page displays one retrieved table and the request carries two.
\<close>

theorem request_legacy_tables_at_example:
  "generate_transformation_logic
     [\<lparr>table_name = ''orders'', columns = [[''id''], [''cust_id''], [''total'']],
       foreign_keys = None, file_name = None\<rparr>,
      \<lparr>table_name = ''customers'', columns = [[''id''], [''name'']],
       foreign_keys = None, file_name = None\<rparr>]
     [\<lparr>table_name = ''Order'', columns = [[''OrderId''], [''CustomerId'']],
       foreign_keys = Some [''Customer''], file_name = Some ''Target.Order.sql''\<rparr>,
      \<lparr>table_name = ''Customer'', columns = [[''Id''], [''Name'']],
       foreign_keys = None, file_name = Some ''Target.Customer.sql''\<rparr>]
     (stub_vector_storage [(''page of orders'', [(''orders'', [''id'', ''cust_id'', ''total''])])])
     ''Target.Order.sql''
   = Inr (Some
      ([\<lparr>table_name = ''orders'', columns = [[''id''], [''cust_id''], [''total'']],
         foreign_keys = None, file_name = None\<rparr>],
       \<lparr>legacy_tables =
          [\<lparr>table_name = ''orders'', columns = [[''id''], [''cust_id''], [''total'']],
            foreign_keys = None, file_name = None\<rparr>,
           \<lparr>table_name = ''customers'', columns = [[''id''], [''name'']],
            foreign_keys = None, file_name = None\<rparr>],
        target_schema =
          \<lparr>table_name = ''Order'', columns = [[''OrderId''], [''CustomerId'']],
           foreign_keys = Some [''Customer''], file_name = Some ''Target.Order.sql''\<rparr>,
        dependent_tables =
          [\<lparr>table_name = ''Customer'', columns = [[''Id''], [''Name'']],
            foreign_keys = None, file_name = Some ''Target.Customer.sql''\<rparr>]\<rparr>))"
  by (simp add: generate_transformation_logic_def get_legacy_and_dependent_tables_def
      resolver_defs dependent_tables_of_def)

text \<open>
  C2. Duplicate names among the retrieved names. The claim is that a
  name returned twice gives one entry of the result. The comprehension has no such
  step: the same page returned twice gives the same table twice.
\<close>

theorem dedup_counterexample:
  "get_legacy_and_dependent_tables
     \<lparr>table_name = ''Order'', columns = [[''OrderId'']], foreign_keys = None, file_name = None\<rparr>
     []
     [\<lparr>table_name = ''orders'', columns = [[''id'']], foreign_keys = None, file_name = None\<rparr>]
     (stub_vector_storage [(''doc'', [(''orders'', [''id''])]), (''doc'', [(''orders'', [''id''])])])
   = Inr ([\<lparr>table_name = ''orders'', columns = [[''id'']], foreign_keys = None, file_name = None\<rparr>,
           \<lparr>table_name = ''orders'', columns = [[''id'']], foreign_keys = None, file_name = None\<rparr>], [])"
  by (simp add: get_legacy_and_dependent_tables_def resolver_defs dependent_tables_of_def)

text \<open>
  C2, as the code has it: whenever the retrieval returns names, the result has one entry
  for every returned name that some legacy table carries, in the order of the names and
  once for each occurrence, and each entry is the first legacy table of its name.
\<close>

theorem legacy_matches_keep_rank_order:
  assumes "retrieve_table_names vs ts = Inr names"
  shows "\<exists>ms. get_legacy_and_dependent_tables ts tts legacy vs = Inr (ms, dependent_tables_of ts tts) \<and>
           map table_name ms = filter (\<lambda>n. n \<in> table_name ` set legacy) names \<and>
           (\<forall>m \<in> set ms. next_table legacy (table_name m) = Inr m)"
proof -
  obtain ms where ms: "match_tables legacy names = Inr ms"
    using match_tables_total by blast
  have "get_legacy_and_dependent_tables ts tts legacy vs = Inr (ms, dependent_tables_of ts tts)"
    using assms ms by (rule get_legacy_and_dependent_tables_Inr)
  moreover have "map table_name ms = filter (\<lambda>n. n \<in> table_name ` set legacy) names"
    using ms by (rule match_tables_names)
  moreover have "\<forall>m \<in> set ms. next_table legacy (table_name m) = Inr m"
    using ms match_tables_first by blast
  ultimately show ?thesis by blast
qed

theorem legacy_matches_keep_rank_order_witness:
  "\<exists>ms. get_legacy_and_dependent_tables
          \<lparr>table_name = ''Order'', columns = [[''OrderId'']], foreign_keys = None, file_name = None\<rparr>
          []
          [\<lparr>table_name = ''orders'', columns = [[''id'']], foreign_keys = None, file_name = None\<rparr>,
           \<lparr>table_name = ''customers'', columns = [[''id'']], foreign_keys = None, file_name = None\<rparr>]
          (stub_vector_storage
            [(''page of customers'', [(''customers'', [''id''])]),
             (''page of orders'', [(''orders'', [''id''])]),
             (''page of customers'', [(''customers'', [''id''])])])
        = Inr (ms, []) \<and>
        map table_name ms = [''customers'', ''orders'', ''customers'']"
proof -
  let ?ts = "\<lparr>table_name = ''Order'', columns = [[''OrderId'']], foreign_keys = None, file_name = None\<rparr>"
  let ?vs = "stub_vector_storage
            [(''page of customers'', [(''customers'', [''id''])]),
             (''page of orders'', [(''orders'', [''id''])]),
             (''page of customers'', [(''customers'', [''id''])])]"
  have h: "retrieve_table_names ?vs ?ts = Inr [''customers'', ''orders'', ''customers'']"
    by (simp add: resolver_defs)
  show ?thesis
    using legacy_matches_keep_rank_order [OF h, of "[]"
      "[\<lparr>table_name = ''orders'', columns = [[''id'']], foreign_keys = None, file_name = None\<rparr>,
        \<lparr>table_name = ''customers'', columns = [[''id'']], foreign_keys = None, file_name = None\<rparr>]"]
    by (auto simp: dependent_tables_of_def)
qed

text \<open>
  C4. The embedding function keeps length and order. Given a provider
  that answers every request of one to \<open>batch_size\<close> texts with the vectors of these
  texts in order (nothing is assumed of larger or empty requests), the call returns one
  vector for every document, the \<open>i\<close>-th being that of the \<open>i\<close>-th document,
  however many batches the documents fill.
\<close>

theorem embed_preserves_order:
  assumes "\<And>batch. batch \<noteq> [] \<Longrightarrow> length batch \<le> batch_size \<Longrightarrow>
             get_embeddings batch = Inr (map emb batch)"
  shows "\<exists>vs. embed_call get_embeddings docs = Inr vs \<and> length vs = length docs \<and>
           (\<forall>i < length docs. vs ! i = emb (docs ! i))"
proof -
  have "embed_loop get_embeddings docs 0 [] = Inr ([] @ map emb (drop 0 docs))"
    using assms by (rule embed_loop_ok)
  then have "embed_call get_embeddings docs = Inr (map emb docs)"
    by (simp add: embed_call_def)
  then show ?thesis by simp
qed

theorem embed_preserves_order_witness:
  "\<exists>vs. embed_call
          (\<lambda>batch. if length batch \<le> 100 then Inr (map length batch)
                   else Inl (ExternalError ''request too large''))
          (replicate 100 ''a'' @ replicate 100 ''bb'' @ [''ccc'']) = Inr vs \<and>
        length vs = 201 \<and> vs ! 0 = 1 \<and> vs ! 100 = 2 \<and> vs ! 200 = 3"
proof -
  let ?g = "\<lambda>batch :: string list. if length batch \<le> 100 then Inr (map length batch)
                   else Inl (ExternalError ''request too large'')"
  let ?docs = "replicate 100 ''a'' @ replicate 100 ''bb'' @ [''ccc'']"
  have h: "\<And>batch. batch \<noteq> [] \<Longrightarrow> length batch \<le> batch_size \<Longrightarrow> ?g batch = Inr (map length batch)"
    by (simp add: batch_size_def)
  obtain vs where vs: "embed_call ?g ?docs = Inr vs" "length vs = length ?docs"
    "\<forall>i < length ?docs. vs ! i = length (?docs ! i)"
    using embed_preserves_order [of ?g length ?docs, OF h] by blast
  have "vs ! 0 = length (?docs ! 0)" using vs(3) by simp
  moreover have "vs ! 100 = length (?docs ! 100)" using vs(3) by simp
  moreover have "vs ! 200 = length (?docs ! 200)" using vs(3) by simp
  ultimately have "vs ! 0 = 1 \<and> vs ! 100 = 2 \<and> vs ! 200 = 3"
    by (simp add: nth_append)
  with vs(1,2) show ?thesis by auto
qed

text \<open>
  C5. A failing batch fails the whole call. If the provider fails on
  the batch that starts at a multiple of \<open>batch_size\<close> inside the documents, the call
  returns an error, that of the first failing batch, and so no embeddings at all.
\<close>

theorem embed_fails_as_a_whole:
  assumes "j * batch_size < length docs"
    and "get_embeddings (take batch_size (drop (j * batch_size) docs)) = Inl e"
  shows "\<exists>e' k. k \<le> j \<and>
           get_embeddings (take batch_size (drop (k * batch_size) docs)) = Inl e' \<and>
           embed_call get_embeddings docs = Inl e'"
proof -
  have "get_embeddings (take batch_size (drop (0 + j * batch_size) docs)) = Inl e"
    using assms(2) by simp
  moreover have "0 + j * batch_size < length docs" using assms(1) by simp
  ultimately obtain e' k where "k \<le> j"
    "get_embeddings (take batch_size (drop (0 + k * batch_size) docs)) = Inl e'"
    "embed_loop get_embeddings docs 0 [] = Inl e'"
    using embed_loop_fails [of get_embeddings 0 j docs e "[]"] by blast
  then show ?thesis by (auto simp: embed_call_def)
qed

theorem embed_fails_as_a_whole_witness:
  "\<exists>e'. embed_call
          (\<lambda>batch. if ''bad'' \<in> set batch then Inl (ExternalError ''quota'')
                   else Inr (map length batch))
          (replicate 100 ''ok'' @ [''bad'']) = Inl e'"
proof -
  let ?g = "\<lambda>batch :: string list. if ''bad'' \<in> set batch then Inl (ExternalError ''quota'')
                   else Inr (map length batch)"
  let ?docs = "replicate 100 ''ok'' @ [''bad'']"
  have 1: "1 * batch_size < length ?docs" by (simp add: batch_size_def)
  have 2: "?g (take batch_size (drop (1 * batch_size) ?docs)) = Inl (ExternalError ''quota'')"
    by (simp add: batch_size_def)
  show ?thesis
    using embed_fails_as_a_whole [of 1 ?docs ?g, OF 1 2] by blast
qed

text \<open>
  C6. The document of a schema is a function of its name and of the
  first attributes of its columns: two schemas that agree on both have the same
  document text (or fail alike), whatever their other attributes, foreign keys and
  file names are.
\<close>

theorem schema_document_deterministic:
  assumes "table_name s1 = table_name s2"
    and "map_err column0 (columns s1) = map_err column0 (columns s2)"
  shows "schema_document str s1 = schema_document str s2"
  by (simp only: schema_document_def target_schema_query_def assms)

theorem schema_document_deterministic_witness:
  "schema_document (\<lambda>d. concat (map (\<lambda>(k, cs). k @ concat cs) d))
     \<lparr>table_name = ''orders'', columns = [[''id'', ''int''], [''total'']],
      foreign_keys = None, file_name = None\<rparr>
   = schema_document (\<lambda>d. concat (map (\<lambda>(k, cs). k @ concat cs) d))
     \<lparr>table_name = ''orders'', columns = [[''id''], [''total'', ''money'']],
      foreign_keys = Some [''customers''], file_name = Some ''orders.sql''\<rparr>"
proof -
  let ?s1 = "\<lparr>table_name = ''orders'', columns = [[''id'', ''int''], [''total'']],
      foreign_keys = None, file_name = None\<rparr>"
  let ?s2 = "\<lparr>table_name = ''orders'', columns = [[''id''], [''total'', ''money'']],
      foreign_keys = Some [''customers''], file_name = Some ''orders.sql''\<rparr>"
  have 1: "table_name ?s1 = table_name ?s2" by simp
  have 2: "map_err column0 (columns ?s1) = map_err column0 (columns ?s2)"
    by (simp add: column0_def)
  show ?thesis
    using schema_document_deterministic [OF 1 2] .
qed

text \<open>
  C7. The dependent tables. Whenever the retrieval succeeds, the
  resolver returns, as its second component, the tables of the target catalog whose
  name is among the foreign keys of the target schema (none when the key is absent),
  in catalog order; a foreign key that names no table of the catalog changes nothing
  and raises nothing.
\<close>

theorem dependent_targets_filter:
  assumes "retrieve_table_names vs ts = Inr names"
  shows "\<exists>ms ds. get_legacy_and_dependent_tables ts tts legacy vs = Inr (ms, ds) \<and>
           ds = filter (\<lambda>t. table_name t \<in> set (case foreign_keys ts of None \<Rightarrow> [] | Some ks \<Rightarrow> ks)) tts \<and>
           subseq ds tts"
proof -
  obtain ms where ms: "match_tables legacy names = Inr ms"
    using match_tables_total by blast
  have "get_legacy_and_dependent_tables ts tts legacy vs = Inr (ms, dependent_tables_of ts tts)"
    using assms ms by (rule get_legacy_and_dependent_tables_Inr)
  moreover have "dependent_tables_of ts tts =
      filter (\<lambda>t. table_name t \<in> set (case foreign_keys ts of None \<Rightarrow> [] | Some ks \<Rightarrow> ks)) tts"
    by (simp add: dependent_tables_of_def)
  moreover have "subseq (dependent_tables_of ts tts) tts"
    by (simp add: dependent_tables_of_def)
  ultimately show ?thesis by blast
qed

theorem dependent_targets_filter_witness:
  "\<exists>ms. get_legacy_and_dependent_tables
          \<lparr>table_name = ''T'', columns = [[''Id'']],
           foreign_keys = Some [''A'', ''B'', ''Z''], file_name = None\<rparr>
          [\<lparr>table_name = ''B'', columns = [], foreign_keys = None, file_name = None\<rparr>,
           \<lparr>table_name = ''T'', columns = [[''Id'']],
            foreign_keys = Some [''A'', ''B'', ''Z''], file_name = None\<rparr>,
           \<lparr>table_name = ''A'', columns = [], foreign_keys = None, file_name = None\<rparr>]
          []
          (stub_vector_storage [])
        = Inr (ms,
           [\<lparr>table_name = ''B'', columns = [], foreign_keys = None, file_name = None\<rparr>,
            \<lparr>table_name = ''A'', columns = [], foreign_keys = None, file_name = None\<rparr>])"
proof -
  let ?ts = "\<lparr>table_name = ''T'', columns = [[''Id'']],
           foreign_keys = Some [''A'', ''B'', ''Z''], file_name = None\<rparr>"
  have h: "retrieve_table_names (stub_vector_storage []) ?ts = Inr []"
    by (simp add: resolver_defs)
  show ?thesis
    using dependent_targets_filter [OF h, of
      "[\<lparr>table_name = ''B'', columns = [], foreign_keys = None, file_name = None\<rparr>, ?ts,
        \<lparr>table_name = ''A'', columns = [], foreign_keys = None, file_name = None\<rparr>]" "[]"]
    by auto
qed

text \<open>
  C8. Names without a legacy table. Whenever the retrieval returns
  names, the resolver returns a result, the retrieved tables are legacy tables, their
  names are the returned names that some legacy table carries, and with an empty
  legacy catalog the result is empty.
\<close>

theorem unmatched_names_dropped:
  assumes "retrieve_table_names vs ts = Inr names"
  shows "\<exists>ms. get_legacy_and_dependent_tables ts tts legacy vs = Inr (ms, dependent_tables_of ts tts) \<and>
           set ms \<subseteq> set legacy \<and>
           table_name ` set ms = set names \<inter> table_name ` set legacy \<and>
           (legacy = [] \<longrightarrow> ms = [])"
proof -
  obtain ms where ms: "match_tables legacy names = Inr ms"
    using match_tables_total by blast
  have r: "get_legacy_and_dependent_tables ts tts legacy vs = Inr (ms, dependent_tables_of ts tts)"
    using assms ms by (rule get_legacy_and_dependent_tables_Inr)
  have n: "map table_name ms = filter (\<lambda>n. n \<in> table_name ` set legacy) names"
    using ms by (rule match_tables_names)
  have "set (map table_name ms) = set (filter (\<lambda>n. n \<in> table_name ` set legacy) names)"
    using n by simp
  then have i: "table_name ` set ms = set names \<inter> table_name ` set legacy"
    by auto
  have s: "set ms \<subseteq> set legacy"
  proof
    fix m assume "m \<in> set ms"
    then have "next_table legacy (table_name m) = Inr m" using ms match_tables_first by blast
    then show "m \<in> set legacy" using next_table_Inr by blast
  qed
  have "legacy = [] \<longrightarrow> ms = []" using s by auto
  with r s i show ?thesis by blast
qed

theorem unmatched_names_dropped_witness:
  "(\<exists>ms. get_legacy_and_dependent_tables
          \<lparr>table_name = ''Order'', columns = [[''OrderId'']], foreign_keys = None, file_name = None\<rparr>
          []
          [\<lparr>table_name = ''orders'', columns = [[''id'']], foreign_keys = None, file_name = None\<rparr>]
          (stub_vector_storage
            [(''page of invoices'', [(''invoices'', [''id''])]),
             (''page of orders'', [(''orders'', [''id''])])])
        = Inr (ms, []) \<and> table_name ` set ms = {''orders''}) \<and>
   get_legacy_and_dependent_tables
          \<lparr>table_name = ''Order'', columns = [[''OrderId'']], foreign_keys = None, file_name = None\<rparr>
          []
          []
          (stub_vector_storage
            [(''page of invoices'', [(''invoices'', [''id''])]),
             (''page of orders'', [(''orders'', [''id''])])])
        = Inr ([], [])"
proof -
  let ?ts = "\<lparr>table_name = ''Order'', columns = [[''OrderId'']], foreign_keys = None, file_name = None\<rparr>"
  let ?vs = "stub_vector_storage
            [(''page of invoices'', [(''invoices'', [''id''])]),
             (''page of orders'', [(''orders'', [''id''])])]"
  have h: "retrieve_table_names ?vs ?ts = Inr [''invoices'', ''orders'']"
    by (simp add: resolver_defs)
  have 1: "\<exists>ms. get_legacy_and_dependent_tables ?ts []
          [\<lparr>table_name = ''orders'', columns = [[''id'']], foreign_keys = None, file_name = None\<rparr>] ?vs
        = Inr (ms, []) \<and> table_name ` set ms = {''orders''}"
    using unmatched_names_dropped [OF h, of "[]"
      "[\<lparr>table_name = ''orders'', columns = [[''id'']], foreign_keys = None, file_name = None\<rparr>]"]
    by (auto simp: dependent_tables_of_def)
  have 2: "get_legacy_and_dependent_tables ?ts [] [] ?vs = Inr ([], [])"
    using unmatched_names_dropped [OF h, of "[]" "[]"]
    by (auto simp: dependent_tables_of_def)
  from 1 2 show ?thesis by blast
qed

text \<open>
  C10. Selection by file name: the result is \<open>None\<close> exactly
  when no table of the catalog has the file name (a table without the key never
  matches), and it is a table \<open>t\<close> exactly when \<open>t\<close> stands at the first position
  of the catalog whose table has the file name.
\<close>

theorem first_match_lookup:
  "(get_target_schema_by_filename tts f = None \<longleftrightarrow> (\<forall>t \<in> set tts. file_name t \<noteq> Some f)) \<and>
   (get_target_schema_by_filename tts f = Some t \<longleftrightarrow>
      (\<exists>i < length tts. tts ! i = t \<and> file_name t = Some f \<and>
         (\<forall>j < i. file_name (tts ! j) \<noteq> Some f)))"
  using get_target_schema_by_filename_None get_target_schema_by_filename_Some by blast

theorem first_match_lookup_witness:
  "get_target_schema_by_filename
     [\<lparr>table_name = ''A'', columns = [], foreign_keys = None, file_name = None\<rparr>,
      \<lparr>table_name = ''B'', columns = [], foreign_keys = None, file_name = Some ''b.sql''\<rparr>,
      \<lparr>table_name = ''C'', columns = [], foreign_keys = None, file_name = Some ''b.sql''\<rparr>]
     ''b.sql''
   = Some \<lparr>table_name = ''B'', columns = [], foreign_keys = None, file_name = Some ''b.sql''\<rparr>
   \<and> get_target_schema_by_filename
     [\<lparr>table_name = ''A'', columns = [], foreign_keys = None, file_name = None\<rparr>] ''b.sql'' = None"
proof -
  let ?A = "\<lparr>table_name = ''A'', columns = [], foreign_keys = None, file_name = None\<rparr>"
  let ?B = "\<lparr>table_name = ''B'', columns = [], foreign_keys = None, file_name = Some ''b.sql''\<rparr>"
  let ?C = "\<lparr>table_name = ''C'', columns = [], foreign_keys = None, file_name = Some ''b.sql''\<rparr>"
  have "\<exists>i < length [?A, ?B, ?C]. [?A, ?B, ?C] ! i = ?B \<and> file_name ?B = Some ''b.sql'' \<and>
         (\<forall>j < i. file_name ([?A, ?B, ?C] ! j) \<noteq> Some ''b.sql'')"
    by (rule exI [of _ 1]) simp
  then have 1: "get_target_schema_by_filename [?A, ?B, ?C] ''b.sql'' = Some ?B"
    using first_match_lookup [of "[?A, ?B, ?C]" "''b.sql''" ?B] by blast
  have "\<forall>t \<in> set [?A]. file_name t \<noteq> Some ''b.sql''" by simp
  then have 2: "get_target_schema_by_filename [?A] ''b.sql'' = None"
    using first_match_lookup [of "[?A]" "''b.sql''" ?A] by blast
  from 1 2 show ?thesis by blast
qed

end
